theory Spec2Isabelle
  imports Main "HOL-Library.List_Lexorder" "HOL-Library.Sublist"
begin

section \<open>Strings\<close>

text \<open>
  A Python \<^verbatim>\<open>str\<close> is a sequence of Unicode code points; \<^verbatim>\<open>re\<close>, \<^verbatim>\<open>strip\<close>,
  \<^verbatim>\<open>sorted\<close> and \<^verbatim>\<open>len\<close> all work on code points. A code point is a natural number
  here, and a string a list of them, ordered lexicographically by code point as Python
  orders strings. ASCII text is written with \<open>lit\<close>.
\<close>

type_synonym pychar = nat
type_synonym pystr = "pychar list"

definition ch :: "char \<Rightarrow> pychar" where
  "ch c = of_char c"

definition lit :: "string \<Rightarrow> pystr" where
  "lit s = map ch s"

text \<open>
  The sentinel of \<^verbatim>\<open>extract_contacts\<close>: the two code points U+672A U+77E5, the word for
  "unknown".
\<close>

definition unknown :: pystr where
  "unknown = [26410, 30693]"

text \<open>
  The characters \<^verbatim>\<open>str.isspace\<close> accepts, which are the ones \<^verbatim>\<open>str.strip()\<close> removes and
  \<^verbatim>\<open>\s\<close> matches in a \<^verbatim>\<open>str\<close> pattern: U+0009..U+000D, U+001C..U+0020, U+0085, U+00A0,
  U+1680, U+2000..U+200A, U+2028, U+2029, U+202F, U+205F, U+3000.
\<close>

definition py_isspace :: "pychar \<Rightarrow> bool" where
  "py_isspace c \<longleftrightarrow>
     (9 \<le> c \<and> c \<le> 13) \<or> (28 \<le> c \<and> c \<le> 32) \<or> c = 133 \<or> c = 160 \<or> c = 5760 \<or>
     (8192 \<le> c \<and> c \<le> 8202) \<or> c = 8232 \<or> c = 8233 \<or> c = 8239 \<or> c = 8287 \<or> c = 12288"

definition strip :: "pystr \<Rightarrow> pystr" where
  "strip s = rev (dropWhile py_isspace (rev (dropWhile py_isspace s)))"

section \<open>Regular expressions as the program uses them\<close>

text \<open>
  The four patterns of the program are concatenations of literal text, one character
  class repeated (\<^verbatim>\<open>[...]+\<close>, \<^verbatim>\<open>[^>]*\<close>, \<^verbatim>\<open>\s*\<close> greedy; \<^verbatim>\<open>.*?\<close> lazy) and one capture
  group around a lazy repetition. A pattern is a list of such items; \<open>Mark\<close> stands for
  a parenthesis of the capture group and records the position where it is passed.
\<close>

datatype item =
    Str pystr
  | Greedy_plus "pychar \<Rightarrow> bool"
  | Greedy_star "pychar \<Rightarrow> bool"
  | Lazy_star "pychar \<Rightarrow> bool"
  | Mark

record mres =
  m_marks :: "pystr list"
  m_rest :: pystr

text \<open>
  \<open>rmatch p s\<close> is the backtracking match of \<open>p\<close> anchored at the start of \<open>s\<close>, with
  the priorities of Python's engine: a greedy repetition tries one more character before
  it tries the rest of the pattern, a lazy one tries the rest of the pattern first. The
  result holds the text left after the match and, for each \<open>Mark\<close>, the text that was
  left when the mark was passed.
\<close>

fun rmatch :: "item list \<Rightarrow> pystr \<Rightarrow> mres option" where
  "rmatch [] s = Some \<lparr>m_marks = [], m_rest = s\<rparr>"
| "rmatch (Str w # r) s =
     (if prefix w s then rmatch r (drop (length w) s) else None)"
| "rmatch (Greedy_plus P # r) [] = None"
| "rmatch (Greedy_plus P # r) (c # cs) =
     (if P c then rmatch (Greedy_star P # r) cs else None)"
| "rmatch (Greedy_star P # r) [] = rmatch r []"
| "rmatch (Greedy_star P # r) (c # cs) =
     (if P c then
        (case rmatch (Greedy_star P # r) cs of
           Some m \<Rightarrow> Some m
         | None \<Rightarrow> rmatch r (c # cs))
      else rmatch r (c # cs))"
| "rmatch (Lazy_star P # r) [] = rmatch r []"
| "rmatch (Lazy_star P # r) (c # cs) =
     (case rmatch r (c # cs) of
        Some m \<Rightarrow> Some m
      | None \<Rightarrow> if P c then rmatch (Lazy_star P # r) cs else None)"
| "rmatch (Mark # r) s =
     (case rmatch r s of
        None \<Rightarrow> None
      | Some m \<Rightarrow> Some (m\<lparr>m_marks := s # m_marks m\<rparr>))"

text \<open>\<^verbatim>\<open>re.search\<close>: the match at the leftmost position that has one.\<close>

fun re_search :: "item list \<Rightarrow> pystr \<Rightarrow> mres option" where
  "re_search p [] = rmatch p []"
| "re_search p (c # cs) =
     (case rmatch p (c # cs) of
        Some m \<Rightarrow> Some m
      | None \<Rightarrow> re_search p cs)"

text \<open>\<^verbatim>\<open>match.group(1)\<close>: the text between the two marks.\<close>

definition group1 :: "mres \<Rightarrow> pystr" where
  "group1 m =
     (case m_marks m of
        [a, b] \<Rightarrow> take (length a - length b) a
      | _ \<Rightarrow> [])"

text \<open>
  \<^verbatim>\<open>re.findall\<close> for a pattern without groups: the matched texts of a scan from left to
  right, each search starting where the previous match ended. A match that consumes
  nothing does not occur with the patterns of this program (lemmas \<open>email_match_shorter\<close>
  and \<open>block_match_shorter\<close>); its branch is there to make the scan total, and
  records the empty text and moves one character on.
\<close>

function findall :: "item list \<Rightarrow> pystr \<Rightarrow> pystr list" where
  "findall p s =
     (case rmatch p s of
        Some m \<Rightarrow>
          if length (m_rest m) < length s
          then take (length s - length (m_rest m)) s # findall p (m_rest m)
          else (case s of [] \<Rightarrow> [[]] | c # cs \<Rightarrow> [] # findall p cs)
      | None \<Rightarrow> (case s of [] \<Rightarrow> [] | c # cs \<Rightarrow> findall p cs))"
  by pat_completeness auto
termination
  by (relation "measure (\<lambda>(p, s). length s)") auto

text \<open>
  The declarative reading of a pattern, used to state what a match looks like:
  \<open>accepts p s m\<close> holds when \<open>s\<close> splits into pieces that fit the items of \<open>p\<close> in
  order, followed by \<open>m_rest m\<close>, with the marks of \<open>m\<close> at the places of the \<open>Mark\<close>s.
\<close>

fun accepts :: "item list \<Rightarrow> pystr \<Rightarrow> mres \<Rightarrow> bool" where
  "accepts [] s m \<longleftrightarrow> m = \<lparr>m_marks = [], m_rest = s\<rparr>"
| "accepts (Str w # r) s m \<longleftrightarrow> (\<exists>s'. s = w @ s' \<and> accepts r s' m)"
| "accepts (Greedy_plus P # r) s m \<longleftrightarrow>
     (\<exists>w s'. s = w @ s' \<and> w \<noteq> [] \<and> list_all P w \<and> accepts r s' m)"
| "accepts (Greedy_star P # r) s m \<longleftrightarrow>
     (\<exists>w s'. s = w @ s' \<and> list_all P w \<and> accepts r s' m)"
| "accepts (Lazy_star P # r) s m \<longleftrightarrow>
     (\<exists>w s'. s = w @ s' \<and> list_all P w \<and> accepts r s' m)"
| "accepts (Mark # r) s m \<longleftrightarrow>
     (\<exists>m'. accepts r s m' \<and> m = m'\<lparr>m_marks := s # m_marks m'\<rparr>)"

section \<open>The patterns of the program\<close>

text \<open>\<^verbatim>\<open>[a-zA-Z0-9._%+-]\<close>\<close>

definition email_local_char :: "pychar \<Rightarrow> bool" where
  "email_local_char c \<longleftrightarrow>
     (ch CHR ''a'' \<le> c \<and> c \<le> ch CHR ''z'') \<or> (ch CHR ''A'' \<le> c \<and> c \<le> ch CHR ''Z'') \<or>
     (ch CHR ''0'' \<le> c \<and> c \<le> ch CHR ''9'') \<or>
     c = ch CHR ''.'' \<or> c = ch CHR ''_'' \<or> c = ch CHR ''%'' \<or> c = ch CHR ''+'' \<or> c = ch CHR ''-''"

text \<open>\<^verbatim>\<open>.\<close> under \<^verbatim>\<open>re.DOTALL\<close>, and \<^verbatim>\<open>[^>]\<close>\<close>

definition any_char :: "pychar \<Rightarrow> bool" where
  "any_char c \<longleftrightarrow> True"

definition not_gt :: "pychar \<Rightarrow> bool" where
  "not_gt c \<longleftrightarrow> c \<noteq> ch CHR ''>''"

definition email_domain :: pystr where
  "email_domain = lit ''@ncut.edu.tw''"

text \<open>\<^verbatim>\<open>r'[a-zA-Z0-9._%+-]+@ncut\.edu\.tw'\<close>\<close>

definition email_pattern :: "item list" where
  "email_pattern = [Greedy_plus email_local_char, Str email_domain]"

text \<open>\<^verbatim>\<open>r'<div class="teacher-list">.*?</div>\s*</div>'\<close> with \<^verbatim>\<open>re.DOTALL\<close>\<close>

definition teacher_block_pattern :: "item list" where
  \<open>teacher_block_pattern =
     [Str (lit ''<div class="teacher-list">''), Lazy_star any_char, Str (lit ''</div>''),
      Greedy_star py_isspace, Str (lit ''</div>'')]\<close>

text \<open>\<^verbatim>\<open>r'<div class="member_name">.*?<a[^>]*>(.*?)</a>'\<close> with \<^verbatim>\<open>re.DOTALL\<close>\<close>

definition name_pattern :: "item list" where
  \<open>name_pattern =
     [Str (lit ''<div class="member_name">''), Lazy_star any_char, Str (lit ''<a''),
      Greedy_star not_gt, Str (lit ''>''), Mark, Lazy_star any_char, Mark,
      Str (lit ''</a>'')]\<close>

text \<open>
  \<^verbatim>\<open>r'<div class="member_info_title">.*?LABEL.*?</div>\s*<div class="member_info_content">(.*?)</div>'\<close>
  with \<^verbatim>\<open>re.DOTALL\<close>, where LABEL is the two code points U+8077 U+7A31, the word for
  "job title".
\<close>

definition title_label :: pystr where
  "title_label = [32887, 31281]"

definition title_pattern :: "item list" where
  \<open>title_pattern =
     [Str (lit ''<div class="member_info_title">''), Lazy_star any_char, Str title_label,
      Lazy_star any_char, Str (lit ''</div>''), Greedy_star py_isspace,
      Str (lit ''<div class="member_info_content">''), Mark, Lazy_star any_char, Mark,
      Str (lit ''</div>'')]\<close>

text \<open>
  The shapes the patterns look for, stated on the text itself. An address of the
  institutional domain is a non-empty run of local-part characters followed by the
  domain.
\<close>

definition email_shape :: "pystr \<Rightarrow> bool" where
  "email_shape e \<longleftrightarrow>
     suffix email_domain e \<and> length email_domain < length e \<and>
     list_all email_local_char (take (length e - length email_domain) e)"



section \<open>Email extraction and contact building\<close>

text \<open>Lines 62 to 67 of \<^verbatim>\<open>fetch_emails_from_ncut\<close>: \<^verbatim>\<open>sorted(set(re.findall(...)))\<close>.\<close>

definition extract_emails :: "pystr \<Rightarrow> pystr list" where
  "extract_emails content = sort (remdups (findall email_pattern content))"

record contact =
  c_name :: pystr
  c_title :: pystr
  c_email :: pystr

text \<open>The two field extractions of the loop body of \<^verbatim>\<open>extract_contacts\<close>.\<close>

definition name_of_block :: "pystr \<Rightarrow> pystr" where
  "name_of_block block =
     (case re_search name_pattern block of
        Some name_match \<Rightarrow> strip (group1 name_match)
      | None \<Rightarrow> unknown)"

definition title_of_block :: "pystr \<Rightarrow> pystr" where
  "title_of_block block =
     (case re_search title_pattern block of
        Some title_match \<Rightarrow> strip (group1 title_match)
      | None \<Rightarrow> unknown)"

text \<open>
  The loop of \<^verbatim>\<open>extract_contacts\<close> over \<^verbatim>\<open>teacher_blocks\<close>, with its two variables
  \<^verbatim>\<open>email_index\<close> and \<^verbatim>\<open>contacts\<close>.
\<close>

fun contacts_loop :: "pystr list \<Rightarrow> pystr list \<Rightarrow> nat \<Rightarrow> contact list \<Rightarrow> contact list" where
  "contacts_loop [] emails email_index contacts = contacts"
| "contacts_loop (block # blocks) emails email_index contacts =
     (let name = name_of_block block;
          title = title_of_block block;
          email = (if email_index < length emails then emails ! email_index else unknown)
      in contacts_loop blocks emails (email_index + 1)
           (contacts @ [\<lparr>c_name = name, c_title = title, c_email = email\<rparr>]))"

definition build_contacts :: "pystr list \<Rightarrow> pystr list \<Rightarrow> contact list" where
  "build_contacts blocks emails = contacts_loop blocks emails 0 []"

definition extract_contacts :: "pystr \<Rightarrow> pystr list \<Rightarrow> contact list" where
  "extract_contacts html emails =
     build_contacts (findall teacher_block_pattern html) emails"

section \<open>The store, the network and the window\<close>

text \<open>
  The table \<^verbatim>\<open>contacts\<close> is the list of its rows in insertion order. The column \<^verbatim>\<open>iid\<close>
  is assigned by SQLite and never read by the program; it is left out. The three text
  columns are always bound to Python strings, so \<^verbatim>\<open>NOT NULL\<close> cannot fail, and the only
  constraint \<^verbatim>\<open>INSERT OR IGNORE\<close> can meet is \<^verbatim>\<open>UNIQUE\<close> on \<^verbatim>\<open>email\<close>: the row is skipped.
  Faults of the storage backend (the \<^verbatim>\<open>sqlite3.Error\<close> branch) are outside the model.
  The table exists: \<^verbatim>\<open>main\<close> calls \<^verbatim>\<open>create_database\<close> before the window opens.
\<close>

definition insert_or_ignore :: "contact list \<Rightarrow> contact \<Rightarrow> contact list" where
  "insert_or_ignore rows c =
     (if c_email c \<in> set (map c_email rows) then rows else rows @ [c])"

text \<open>
  The answer to one HTTP GET: \<^verbatim>\<open>requests.get\<close> followed by \<^verbatim>\<open>raise_for_status\<close> either
  gives the page text or raises a \<^verbatim>\<open>RequestException\<close> (transport failure or a status
  of 400 and above). The network maps the address and the number of requests sent so far
  to the answer, so the same address may answer differently each time.
\<close>

datatype response = Page pystr | Request_exception pystr

type_synonym network = "pystr \<Rightarrow> nat \<Rightarrow> response"

text \<open>
  What the user sees: the rows of the tree view, the error dialogs opened by
  \<^verbatim>\<open>messagebox.showerror\<close> (for an empty address, and for a failed page fetch with the
  text of the exception), and the lines printed to the console (one per failed email
  fetch, standing for the text of its exception).
\<close>

datatype dialog = Error_invalid_url | Error_fetch_failed pystr

record state =
  contacts_table :: "contact list"
  tree_rows :: "(pystr \<times> pystr \<times> pystr) list"
  requests_sent :: nat
  dialogs :: "dialog list"
  console :: "pystr list"

definition save_to_database :: "contact list \<Rightarrow> state \<Rightarrow> state" where
  "save_to_database contacts st =
     st\<lparr>contacts_table := foldl insert_or_ignore (contacts_table st) contacts\<rparr>"

definition fetch_emails_from_ncut :: "network \<Rightarrow> pystr \<Rightarrow> state \<Rightarrow> pystr list \<times> state" where
  "fetch_emails_from_ncut net url st =
     (case net url (requests_sent st) of
        Page content \<Rightarrow>
          (extract_emails content, st\<lparr>requests_sent := requests_sent st + 1\<rparr>)
      | Request_exception e \<Rightarrow>
          ([], st\<lparr>requests_sent := requests_sent st + 1, console := console st @ [e]\<rparr>))"

definition fetch_html :: "network \<Rightarrow> pystr \<Rightarrow> state \<Rightarrow> pystr \<times> state" where
  "fetch_html net url st =
     (case net url (requests_sent st) of
        Page content \<Rightarrow> (content, st\<lparr>requests_sent := requests_sent st + 1\<rparr>)
      | Request_exception e \<Rightarrow>
          ([], st\<lparr>requests_sent := requests_sent st + 1,
                  dialogs := dialogs st @ [Error_fetch_failed e]\<rparr>))"

definition display_contacts :: "contact list \<Rightarrow> state \<Rightarrow> state" where
  "display_contacts contacts st =
     st\<lparr>tree_rows := map (\<lambda>c. (c_name c, c_title c, c_email c)) contacts\<rparr>"

text \<open>\<^verbatim>\<open>fetch_and_display\<close>; \<open>url\<close> is the text of the entry field.\<close>

definition fetch_and_display :: "network \<Rightarrow> pystr \<Rightarrow> state \<Rightarrow> state" where
  "fetch_and_display net url st =
     (if url = [] then st\<lparr>dialogs := dialogs st @ [Error_invalid_url]\<rparr>
      else
        (case fetch_html net url st of
           (html, st1) \<Rightarrow>
             if html \<noteq> [] then
               (case fetch_emails_from_ncut net url st1 of
                  (emails, st2) \<Rightarrow>
                    display_contacts (extract_contacts html emails)
                      (save_to_database (extract_contacts html emails) st2))
             else st1))"

section \<open>Example inputs\<close>

text \<open>
  A page with one directory entry that has a title and no name container, followed by
  one address of the domain.
\<close>

definition titled_block :: pystr where
  \<open>titled_block =
     lit ''<div class="teacher-list"><div class="member_info_title">'' @ title_label @
     lit ''</div><div class="member_info_content"> Professor </div></div>''\<close>

definition titled_page :: pystr where
  "titled_page = titled_block @ lit ''a@ncut.edu.tw''"

text \<open>A page with two directory entries, named A and B, and no address.\<close>

definition block_A :: pystr where
  \<open>block_A = lit ''<div class="teacher-list"><div class="member_name"><a>A</a></div></div>''\<close>

definition block_B :: pystr where
  \<open>block_B = lit ''<div class="teacher-list"><div class="member_name"><a>B</a></div></div>''\<close>

definition two_page :: pystr where
  "two_page = block_A @ block_B"



definition steady_net :: network where
  "steady_net url k = Page titled_page"


definition start :: state where
  "start = \<lparr>contacts_table = [], tree_rows = [], requests_sent = 0, dialogs = [], console = []\<rparr>"




section \<open>The backtracking match and the declarative reading\<close>

lemma accepts_star_nil:
  "accepts r s m \<Longrightarrow> accepts (Greedy_star P # r) s m"
  "accepts r s m \<Longrightarrow> accepts (Lazy_star P # r) s m"
  by (simp_all, force+)

lemma accepts_star_cons: 
  "P c \<Longrightarrow> accepts (Greedy_star P # r) cs m \<Longrightarrow> accepts (Greedy_star P # r) (c # cs) m"
  "P c \<Longrightarrow> accepts (Lazy_star P # r) cs m \<Longrightarrow> accepts (Lazy_star P # r) (c # cs) m"
  "P c \<Longrightarrow> accepts (Greedy_star P # r) cs m \<Longrightarrow> accepts (Greedy_plus P # r) (c # cs) m"
proof -
  have *: "\<And>w s'. P c \<Longrightarrow> cs = w @ s' \<Longrightarrow> list_all P w \<Longrightarrow>
    c # cs = (c # w) @ s' \<and> c # w \<noteq> [] \<and> list_all P (c # w)" by simp
  show "P c \<Longrightarrow> accepts (Greedy_star P # r) cs m \<Longrightarrow> accepts (Greedy_star P # r) (c # cs) m"
    unfolding accepts.simps using * by blast
  show "P c \<Longrightarrow> accepts (Lazy_star P # r) cs m \<Longrightarrow> accepts (Lazy_star P # r) (c # cs) m"
    unfolding accepts.simps using * by blast
  show "P c \<Longrightarrow> accepts (Greedy_star P # r) cs m \<Longrightarrow> accepts (Greedy_plus P # r) (c # cs) m"
    unfolding accepts.simps using * by blast
qed

lemma accepts_star_cases:
  assumes "accepts (Greedy_star P # r) (c # cs) m \<or> accepts (Lazy_star P # r) (c # cs) m"
  shows "accepts r (c # cs) m \<or> (P c \<and> accepts (Greedy_star P # r) cs m \<and> accepts (Lazy_star P # r) cs m)"
proof -
  from assms obtain w s' where w: "c # cs = w @ s'" "list_all P w" "accepts r s' m" by auto
  show ?thesis
  proof (cases w)
    case Nil
    with w show ?thesis by simp
  next
    case (Cons a w')
    with w have "P c" "cs = w' @ s'" "list_all P w'" by auto
    with w(3) show ?thesis by auto
  qed
qed

lemma rmatch_accepts: "rmatch p s = Some m \<Longrightarrow> accepts p s m"
proof (induction p s arbitrary: m rule: rmatch.induct)
  case (1 s)
  then show ?case by simp
next
  case (2 w r s)
  then show ?case by (auto simp: prefix_def split: if_splits)
next
  case (4 P r c cs)
  then show ?case by (auto split: if_splits intro: accepts_star_cons simp del: accepts.simps)
next
  case (6 P r c cs)
  then show ?case
    by (auto split: if_splits option.splits intro: accepts_star_cons accepts_star_nil simp del: accepts.simps)
next
  case (7 P r)
  then show ?case by (auto intro: accepts_star_nil simp del: accepts.simps)
next
  case (8 P r c cs)
  then show ?case
    by (auto split: if_splits option.splits intro: accepts_star_cons accepts_star_nil simp del: accepts.simps)
next
  case (9 r s)
  then show ?case by (auto split: option.splits)
qed (auto intro: accepts_star_nil simp del: accepts.simps)

lemma accepts_rmatch: "accepts p s m \<Longrightarrow> rmatch p s \<noteq> None"
proof (induction p s arbitrary: m rule: rmatch.induct)
  case (2 w r s)
  then show ?case by (auto simp: prefix_def)
next
  case (4 P r c cs)
  then obtain w s' where w: "c # cs = w @ s'" "w \<noteq> []" "list_all P w" "accepts r s' m" by auto
  then obtain w' where "w = c # w'" by (cases w) auto
  with w have "P c" "accepts (Greedy_star P # r) cs m" by auto
  with 4 show ?case by auto
next
  case (6 P r c cs)
  from accepts_star_cases[of P r c cs m] "6.prems"
  consider "accepts r (c # cs) m" | "P c" "accepts (Greedy_star P # r) cs m" by blast
  then show ?case
  proof cases
    case 1
    show ?thesis
    proof (cases "P c")
      case True
      show ?thesis
      proof (cases "rmatch (Greedy_star P # r) cs")
        case None
        from "6.IH"(2)[OF True None 1] True None show ?thesis by auto
      next
        case (Some a)
        with True show ?thesis by simp
      qed
    next
      case False
      from "6.IH"(3)[OF False 1] False show ?thesis by auto
    qed
  next
    case 2
    from "6.IH"(1)[OF 2] have "rmatch (Greedy_star P # r) cs \<noteq> None" .
    with 2(1) show ?thesis by auto
  qed
next
  case (8 P r c cs)
  from accepts_star_cases[of P r c cs m] "8.prems"
  consider "accepts r (c # cs) m" | "P c" "accepts (Lazy_star P # r) cs m" by blast
  then show ?case
  proof cases
    case 1
    from "8.IH"(1)[OF 1] show ?thesis by auto
  next
    case 2
    show ?thesis
    proof (cases "rmatch r (c # cs)")
      case None
      from "8.IH"(2)[OF None 2] have "rmatch (Lazy_star P # r) cs \<noteq> None" .
      with None 2(1) show ?thesis by auto
    next
      case (Some a)
      then show ?thesis by simp
    qed
  qed
qed (auto split: option.splits)

lemma rmatch_iff: "rmatch p s \<noteq> None \<longleftrightarrow> (\<exists>m. accepts p s m)"
  using rmatch_accepts accepts_rmatch by blast

lemma accepts_rest: "accepts p s m \<Longrightarrow> suffix (m_rest m) s"
proof (induction p arbitrary: s m)
  case Nil
  then show ?case by simp
next
  case (Cons i p)
  then show ?case
    by (cases i) (auto simp: suffix_append)
qed

lemma rmatch_rest: "rmatch p s = Some m \<Longrightarrow> suffix (m_rest m) s"
  by (rule accepts_rest[OF rmatch_accepts])



lemma findall_set:
  "e \<in> set (findall p s) \<Longrightarrow>
   \<exists>pre s' m. s = pre @ s' \<and> rmatch p s' = Some m \<and> e = take (length s' - length (m_rest m)) s'"
proof (induction p s rule: findall.induct)
  case (1 p s)
  show ?case
  proof (cases "rmatch p s")
    case None
    show ?thesis
    proof (cases s)
      case Nil
      with None 1 show ?thesis by simp
    next
      case (Cons c cs)
      with None "1.prems" have "e \<in> set (findall p cs)" by simp
      from "1.IH"(1)[OF None Cons this] obtain pre s' m where
        "cs = pre @ s'" "rmatch p s' = Some m" "e = take (length s' - length (m_rest m)) s'"
        by blast
      with Cons have "s = (c # pre) @ s' \<and> rmatch p s' = Some m \<and>
        e = take (length s' - length (m_rest m)) s'" by simp
      then show ?thesis by blast
    qed
  next
    case (Some m)
    from rmatch_rest[OF Some] obtain w where w: "s = w @ m_rest m" by (auto simp: suffix_def)
    have here: "s = [] @ s \<and> rmatch p s = Some m \<and>
        take (length s - length (m_rest m)) s = take (length s - length (m_rest m)) s"
      using Some by simp
    show ?thesis
    proof (cases "length (m_rest m) < length s")
      case True
      with Some "1.prems" consider "e = take (length s - length (m_rest m)) s"
        | "e \<in> set (findall p (m_rest m))" by auto
      then show ?thesis
      proof cases
        case 1
        with here show ?thesis by blast
      next
        case 2
        from "1.IH"(2)[OF Some True 2] obtain pre s' m' where
          "m_rest m = pre @ s'" "rmatch p s' = Some m'"
          "e = take (length s' - length (m_rest m')) s'" by blast
        with w have "s = (w @ pre) @ s' \<and> rmatch p s' = Some m' \<and>
           e = take (length s' - length (m_rest m')) s'" by simp
        then show ?thesis by blast
      qed
    next
      case False
      show ?thesis
      proof (cases s)
        case Nil
        with Some False "1.prems" have "e = []" by simp
        with Nil have "e = take (length s - length (m_rest m)) s" by simp
        with here show ?thesis by blast
      next
        case (Cons c cs)
        with Some False "1.prems" consider "e = []" | "e \<in> set (findall p cs)" by auto
        then show ?thesis
        proof cases
          case 1
          with False have "e = take (length s - length (m_rest m)) s" by simp
          with here show ?thesis by blast
        next
          case 2
          from "1.IH"(3)[OF Some False Cons 2] obtain pre s' m' where
            "cs = pre @ s'" "rmatch p s' = Some m'"
            "e = take (length s' - length (m_rest m')) s'" by blast
          with Cons have "s = (c # pre) @ s' \<and> rmatch p s' = Some m' \<and>
             e = take (length s' - length (m_rest m')) s'" by simp
          then show ?thesis by blast
        qed
      qed
    qed
  qed
qed

lemma findall_Nil_iff:
  "findall p s = [] \<longleftrightarrow> (\<forall>pre s'. s = pre @ s' \<longrightarrow> rmatch p s' = None)"
proof (induction p s rule: findall.induct)
  case (1 p s)
  show ?case
  proof (cases "rmatch p s")
    case None
    show ?thesis
    proof (cases s)
      case Nil
      with None show ?thesis by simp
    next
      case (Cons c cs)
      have "(\<forall>pre s'. c # cs = pre @ s' \<longrightarrow> rmatch p s' = None) \<longleftrightarrow>
          (\<forall>pre s'. cs = pre @ s' \<longrightarrow> rmatch p s' = None)"
        using None Cons by (auto simp: Cons_eq_append_conv)
      with "1.IH"(1)[OF None Cons] None Cons show ?thesis by simp
    qed
  next
    case (Some m)
    then have "\<not> (\<forall>pre s'. s = pre @ s' \<longrightarrow> rmatch p s' = None)"
      by (metis append_Nil option.distinct(1))
    moreover have "findall p s \<noteq> []"
      using Some by (cases s) simp_all
    ultimately show ?thesis by simp
  qed
qed

section \<open>Matches of the email pattern\<close>

lemma accepts_email:
  "accepts email_pattern s m \<longleftrightarrow>
     (\<exists>w. w \<noteq> [] \<and> list_all email_local_char w \<and> s = w @ email_domain @ m_rest m \<and> m_marks m = [])"
proof
  assume "accepts email_pattern s m"
  then show "\<exists>w. w \<noteq> [] \<and> list_all email_local_char w \<and> s = w @ email_domain @ m_rest m \<and> m_marks m = []"
    unfolding email_pattern_def by auto
next
  assume "\<exists>w. w \<noteq> [] \<and> list_all email_local_char w \<and> s = w @ email_domain @ m_rest m \<and> m_marks m = []"
  then obtain w where w: "w \<noteq> []" "list_all email_local_char w" "s = w @ email_domain @ m_rest m"
    "m_marks m = []" by blast
  have "m = \<lparr>m_marks = [], m_rest = m_rest m\<rparr>" using w(4) by simp
  with w(1-3) show "accepts email_pattern s m"
    unfolding email_pattern_def accepts.simps by blast
qed

lemma email_shape_iff:
  "email_shape e \<longleftrightarrow> (\<exists>w. w \<noteq> [] \<and> list_all email_local_char w \<and> e = w @ email_domain)"
proof
  assume "email_shape e"
  then obtain w where w: "e = w @ email_domain" "length email_domain < length e"
    "list_all email_local_char (take (length e - length email_domain) e)"
    by (auto simp: email_shape_def suffix_def)
  then have "w \<noteq> []" "list_all email_local_char w" by auto
  with w(1) show "\<exists>w. w \<noteq> [] \<and> list_all email_local_char w \<and> e = w @ email_domain" by blast
next
  assume "\<exists>w. w \<noteq> [] \<and> list_all email_local_char w \<and> e = w @ email_domain"
  then show "email_shape e" by (auto simp: email_shape_def suffix_def)
qed

lemma email_match_text:
  assumes "rmatch email_pattern s = Some m"
  shows "email_shape (take (length s - length (m_rest m)) s)"
proof -
  from rmatch_accepts[OF assms] obtain w where
    w: "w \<noteq> []" "list_all email_local_char w" "s = w @ email_domain @ m_rest m"
    unfolding accepts_email by blast
  have "take (length s - length (m_rest m)) s = w @ email_domain"
    by (subst (1 2) w(3)) simp
  with w(1,2) show ?thesis unfolding email_shape_iff by blast
qed

lemma email_match_shorter:
  assumes "rmatch email_pattern s = Some m"
  shows "length (m_rest m) < length s"
proof -
  from rmatch_accepts[OF assms] obtain w where
    w: "w \<noteq> []" "s = w @ email_domain @ m_rest m"
    unfolding accepts_email by blast
  have "length s = length w + length email_domain + length (m_rest m)"
    by (subst w(2)) simp
  with w(1) show ?thesis by simp
qed

lemma block_match_shorter:
  assumes "rmatch teacher_block_pattern s = Some m"
  shows "length (m_rest m) < length s"
proof -
  from rmatch_accepts[OF assms] obtain s1 r where
    s: \<open>s = lit ''<div class="teacher-list">'' @ s1\<close> and a: "accepts r s1 m"
    unfolding teacher_block_pattern_def accepts.simps(2)[of _ "Lazy_star any_char # _"]
    by blast
  from accepts_rest[OF a] have "length (m_rest m) \<le> length s1"
    by (rule suffix_length_le)
  moreover have "length s1 < length s"
    unfolding s by (simp add: lit_def)
  ultimately show ?thesis by simp
qed

lemma findall_sublist:
  assumes "e \<in> set (findall p s)"
  shows "sublist e s"
proof -
  from findall_set[OF assms] obtain pre s' m where
    *: "s = pre @ s'" "rmatch p s' = Some m" "e = take (length s' - length (m_rest m)) s'"
    by blast
  have "s = pre @ e @ drop (length s' - length (m_rest m)) s'"
    using * by simp
  then show ?thesis unfolding sublist_def by blast
qed

lemma findall_email_shape:
  assumes "e \<in> set (findall email_pattern s)"
  shows "email_shape e"
proof -
  from findall_set[OF assms] obtain pre s' m where
    "rmatch email_pattern s' = Some m" "e = take (length s' - length (m_rest m)) s'"
    by blast
  then show ?thesis using email_match_text by simp
qed

lemma findall_email_Nil_iff:
  "findall email_pattern s = [] \<longleftrightarrow> \<not> (\<exists>e. email_shape e \<and> sublist e s)"
proof
  assume nil: "findall email_pattern s = []"
  show "\<not> (\<exists>e. email_shape e \<and> sublist e s)"
  proof
    assume "\<exists>e. email_shape e \<and> sublist e s"
    then obtain e w pre post where "w \<noteq> []" "list_all email_local_char w"
      "e = w @ email_domain" "s = pre @ e @ post"
      unfolding email_shape_iff sublist_def by blast
    then have "accepts email_pattern (e @ post) \<lparr>m_marks = [], m_rest = post\<rparr>"
      unfolding accepts_email by auto
    then have "rmatch email_pattern (e @ post) \<noteq> None" by (rule accepts_rmatch)
    moreover from nil \<open>s = pre @ e @ post\<close> have "rmatch email_pattern (e @ post) = None"
      unfolding findall_Nil_iff by blast
    ultimately show False by simp
  qed
next
  assume none: "\<not> (\<exists>e. email_shape e \<and> sublist e s)"
  show "findall email_pattern s = []"
  proof (rule ccontr)
    assume "findall email_pattern s \<noteq> []"
    then obtain e where "e \<in> set (findall email_pattern s)" by (cases "findall email_pattern s") auto
    then have "email_shape e \<and> sublist e s" using findall_email_shape findall_sublist by blast
    with none show False by blast
  qed
qed

lemmas eval_defs = lit_def ch_def teacher_block_pattern_def name_pattern_def title_pattern_def
  name_of_block_def title_of_block_def group1_def strip_def py_isspace_def any_char_def
  not_gt_def title_label_def unknown_def email_pattern_def email_domain_def
  email_local_char_def extract_emails_def

lemma fetch_emails_result:
  "fst (fetch_emails_from_ncut net url st) =
     (case net url (requests_sent st) of
        Page content \<Rightarrow> extract_emails content
      | Request_exception e \<Rightarrow> [])"
  by (simp add: fetch_emails_from_ncut_def split: response.splits)

lemma fetch_emails_leaves_store:
  "contacts_table (snd (fetch_emails_from_ncut net url st)) = contacts_table st \<and>
   tree_rows (snd (fetch_emails_from_ncut net url st)) = tree_rows st \<and>
   dialogs (snd (fetch_emails_from_ncut net url st)) = dialogs st"
  by (simp add: fetch_emails_from_ncut_def split: response.splits)

section \<open>C2: the email extractor\<close>

text \<open>
  C2, as the claim states it, says that the extractor returns exactly the set of
  substrings of the text that have the shape of an address. The code returns the matches
  of \<^verbatim>\<open>re.findall\<close>, which scans from left to right, takes the local part as long as it
  runs from the position of the scan, and continues after the end of each match. A
  substring of the shape that lies inside a longer match is not returned: in
  \<^verbatim>\<open>ab@ncut.edu.tw\<close> the substring \<^verbatim>\<open>b@ncut.edu.tw\<close> has the shape and is not in the
  result.
\<close>

theorem extract_emails_not_all_substrings:
  "extract_emails (lit ''ab@ncut.edu.tw'') = [lit ''ab@ncut.edu.tw''] \<and>
   email_shape (lit ''b@ncut.edu.tw'') \<and>
   sublist (lit ''b@ncut.edu.tw'') (lit ''ab@ncut.edu.tw'')"
  by (simp add: eval_defs email_shape_def sublist_code suffix_to_prefix)

text \<open>
  C2 as amended: for every input text the extractor returns the matches of the scan,
  without repetition and in strictly ascending order; every returned element is a
  substring of the text and has the shape local-part followed by the fixed domain, the
  local part a non-empty run of letters, digits and \<^verbatim>\<open>. _ % + -\<close>; the result is empty
  exactly when the text has no substring of that shape. The extraction is a function of
  the text alone, and the function around it, which sends the request, leaves the table,
  the displayed rows and the dialogs as they are.
\<close>

theorem extract_emails_scan:
  "sorted_wrt (<) (extract_emails text) \<and>
   set (extract_emails text) = set (findall email_pattern text) \<and>
   (\<forall>e \<in> set (extract_emails text). email_shape e \<and> sublist e text) \<and>
   (extract_emails text = [] \<longleftrightarrow> \<not> (\<exists>e. email_shape e \<and> sublist e text)) \<and>
   fst (fetch_emails_from_ncut net url st) =
     (case net url (requests_sent st) of
        Page content \<Rightarrow> extract_emails content
      | Request_exception e \<Rightarrow> []) \<and>
   contacts_table (snd (fetch_emails_from_ncut net url st)) = contacts_table st \<and>
   tree_rows (snd (fetch_emails_from_ncut net url st)) = tree_rows st \<and>
   dialogs (snd (fetch_emails_from_ncut net url st)) = dialogs st"
proof -
  have "sorted_wrt (<) (extract_emails text)"
    unfolding extract_emails_def strict_sorted_iff by simp
  moreover have s: "set (extract_emails text) = set (findall email_pattern text)"
    unfolding extract_emails_def by simp
  moreover have "\<forall>e \<in> set (extract_emails text). email_shape e \<and> sublist e text"
    unfolding s using findall_email_shape findall_sublist by blast
  moreover have "extract_emails text = [] \<longleftrightarrow> findall email_pattern text = []"
    using s by (metis set_empty)
  ultimately show ?thesis
    using findall_email_Nil_iff fetch_emails_result fetch_emails_leaves_store by simp
qed

theorem extract_emails_scan_witness:
  "extract_emails (lit ''b@ncut.edu.tw a@ncut.edu.tw b@ncut.edu.tw'') =
     [lit ''a@ncut.edu.tw'', lit ''b@ncut.edu.tw''] \<and>
   email_shape (lit ''a@ncut.edu.tw'') \<and>
   sublist (lit ''a@ncut.edu.tw'') (lit ''b@ncut.edu.tw a@ncut.edu.tw b@ncut.edu.tw'')"
proof -
  have v: "extract_emails (lit ''b@ncut.edu.tw a@ncut.edu.tw b@ncut.edu.tw'') =
     [lit ''a@ncut.edu.tw'', lit ''b@ncut.edu.tw'']"
    by (simp add: eval_defs)
  from extract_emails_scan[of "lit ''b@ncut.edu.tw a@ncut.edu.tw b@ncut.edu.tw''"]
  have "\<forall>e \<in> set (extract_emails (lit ''b@ncut.edu.tw a@ncut.edu.tw b@ncut.edu.tw'')).
          email_shape e \<and> sublist e (lit ''b@ncut.edu.tw a@ncut.edu.tw b@ncut.edu.tw'')"
    by blast
  with v show ?thesis by simp
qed

section \<open>The loop of the contact builder\<close>

lemma contacts_loop_length:
  "length (contacts_loop blocks emails i acc) = length acc + length blocks"
  by (induction blocks arbitrary: i acc) (simp_all add: Let_def)

lemma contacts_loop_prefix:
  "k < length acc \<Longrightarrow> contacts_loop blocks emails i acc ! k = acc ! k"
  by (induction blocks arbitrary: i acc) (simp_all add: Let_def nth_append)

lemma contacts_loop_nth:
  "k < length blocks \<Longrightarrow>
   contacts_loop blocks emails i acc ! (length acc + k) =
     \<lparr>c_name = name_of_block (blocks ! k), c_title = title_of_block (blocks ! k),
      c_email = (if i + k < length emails then emails ! (i + k) else unknown)\<rparr>"
proof (induction blocks arbitrary: i acc k)
  case Nil
  then show ?case by simp
next
  case (Cons block blocks)
  let ?c = "\<lparr>c_name = name_of_block block, c_title = title_of_block block,
      c_email = (if i < length emails then emails ! i else unknown)\<rparr>"
  show ?case
  proof (cases k)
    case 0
    have "contacts_loop (block # blocks) emails i acc ! length acc =
          contacts_loop blocks emails (i + 1) (acc @ [?c]) ! length acc"
      by (simp add: Let_def)
    also have "\<dots> = (acc @ [?c]) ! length acc"
      by (rule contacts_loop_prefix) simp
    finally show ?thesis using 0 by simp
  next
    case (Suc j)
    with Cons.prems have j: "j < length blocks" by simp
    have "contacts_loop (block # blocks) emails i acc ! (length acc + k) =
          contacts_loop blocks emails (i + 1) (acc @ [?c]) ! (length (acc @ [?c]) + j)"
      using Suc by (simp add: Let_def)
    also note Cons.IH[OF j, of "i + 1" "acc @ [?c]"]
    finally show ?thesis using Suc by simp
  qed
qed

lemma build_contacts_nth:
  "k < length blocks \<Longrightarrow>
   build_contacts blocks emails ! k =
     \<lparr>c_name = name_of_block (blocks ! k), c_title = title_of_block (blocks ! k),
      c_email = (if k < length emails then emails ! k else unknown)\<rparr>"
  using contacts_loop_nth[of k blocks emails 0 "[]"] by (simp add: build_contacts_def)

lemma build_contacts_length: "length (build_contacts blocks emails) = length blocks"
  by (simp add: build_contacts_def contacts_loop_length)

lemma build_contacts_names:
  "map c_name (build_contacts blocks emails) = map name_of_block blocks"
  by (rule nth_equalityI) (simp_all add: build_contacts_length build_contacts_nth)

lemma build_contacts_titles:
  "map c_title (build_contacts blocks emails) = map title_of_block blocks"
  by (rule nth_equalityI) (simp_all add: build_contacts_length build_contacts_nth)

lemma build_contacts_emails:
  "map c_email (build_contacts blocks emails) =
   map (\<lambda>k. if k < length emails then emails ! k else unknown) [0..<length blocks]"
  by (rule nth_equalityI) (simp_all add: build_contacts_length build_contacts_nth)

section \<open>C3: one contact per block\<close>

text \<open>
  C3: for every sequence of blocks and every sequence of emails (shorter, longer or
  empty), the contact builder returns exactly one contact per block, in block order: the
  result is as long as the blocks, and its names and titles are those of the blocks in
  order. The contacts extracted from a page are as many as the blocks found in it.
\<close>

theorem build_contacts_one_per_block:
  "length (build_contacts blocks emails) = length blocks \<and>
   map c_name (build_contacts blocks emails) = map name_of_block blocks \<and>
   map c_title (build_contacts blocks emails) = map title_of_block blocks \<and>
   length (extract_contacts html emails) = length (findall teacher_block_pattern html)"
  by (simp add: build_contacts_length build_contacts_names build_contacts_titles
      extract_contacts_def)

section \<open>C4: emails by position\<close>

text \<open>
  C4: the email of a contact depends on the position of its block only. The contact of
  the i-th block (counted from 0) has the i-th entry of the emails when there is one,
  and the sentinel otherwise; with three blocks and two emails the third contact has
  the sentinel.
\<close>

theorem email_by_position:
  "i < length blocks \<Longrightarrow>
   c_email (build_contacts blocks emails ! i) =
     (if i < length emails then emails ! i else unknown)"
  by (simp add: build_contacts_nth)

theorem email_by_position_witness:
  "(2::nat) < length [lit ''x'', lit ''y'', lit ''z''] \<and>
   c_email (build_contacts [lit ''x'', lit ''y'', lit ''z'']
              [lit ''a@ncut.edu.tw'', lit ''b@ncut.edu.tw''] ! 2) = unknown \<and>
   c_email (build_contacts [lit ''x'', lit ''y'', lit ''z'']
              [lit ''a@ncut.edu.tw'', lit ''b@ncut.edu.tw''] ! 1) = lit ''b@ncut.edu.tw''"
  using email_by_position[of 2 "[lit ''x'', lit ''y'', lit ''z'']"
          "[lit ''a@ncut.edu.tw'', lit ''b@ncut.edu.tw'']"]
        email_by_position[of 1 "[lit ''x'', lit ''y'', lit ''z'']"
          "[lit ''a@ncut.edu.tw'', lit ''b@ncut.edu.tw'']"]
  by simp

section \<open>Matches of the name and title patterns\<close>

lemma list_all_any_char [simp]: "list_all any_char w"
  by (induction w) (simp_all add: any_char_def)

















section \<open>The example inputs, evaluated\<close>

lemma blocks_titled_page: "findall teacher_block_pattern titled_page = [titled_block]"
  by (simp add: titled_page_def titled_block_def eval_defs)

lemma emails_titled_page: "extract_emails titled_page = [lit ''a@ncut.edu.tw'']"
  by (simp add: titled_page_def titled_block_def eval_defs)

lemma name_search_titled_block: "re_search name_pattern titled_block = None"
  by (simp add: titled_block_def eval_defs)

lemma name_titled_block: "name_of_block titled_block = unknown"
  by (simp add: name_of_block_def name_search_titled_block)

lemma title_titled_block: "title_of_block titled_block = lit ''Professor''"
  by (simp add: titled_block_def eval_defs)


lemma emails_two_page: "extract_emails two_page = []"
  by (simp add: two_page_def block_A_def block_B_def eval_defs)



section \<open>C5: name and title of a block\<close>



section \<open>Insert or ignore\<close>

lemma save_emails:
  "set (map c_email (foldl insert_or_ignore rows cs)) =
   set (map c_email rows) \<union> set (map c_email cs)"
  by (induction cs arbitrary: rows) (auto simp: insert_or_ignore_def)

lemma save_noop:
  "set (map c_email cs) \<subseteq> set (map c_email rows) \<Longrightarrow> foldl insert_or_ignore rows cs = rows"
  by (induction cs arbitrary: rows) (auto simp: insert_or_ignore_def)

lemma save_twice:
  "foldl insert_or_ignore (foldl insert_or_ignore rows cs) cs = foldl insert_or_ignore rows cs"
proof -
  have "set (map c_email cs) \<subseteq> set (map c_email (foldl insert_or_ignore rows cs))"
    unfolding save_emails by blast
  then show ?thesis by (rule save_noop)
qed




section \<open>The run\<close>

lemma run_page:
  assumes "url \<noteq> []" and "net url (requests_sent st) = Page html" and "html \<noteq> []"
  shows "fetch_and_display net url st =
     st\<lparr>contacts_table :=
          foldl insert_or_ignore (contacts_table st)
            (extract_contacts html
              (case net url (Suc (requests_sent st)) of
                 Page content \<Rightarrow> extract_emails content
               | Request_exception e \<Rightarrow> [])),
        tree_rows :=
          map (\<lambda>c. (c_name c, c_title c, c_email c))
            (extract_contacts html
              (case net url (Suc (requests_sent st)) of
                 Page content \<Rightarrow> extract_emails content
               | Request_exception e \<Rightarrow> [])),
        requests_sent := Suc (Suc (requests_sent st)),
        console := (case net url (Suc (requests_sent st)) of
                      Page content \<Rightarrow> console st
                    | Request_exception e \<Rightarrow> console st @ [e])\<rparr>"
  using assms
  by (simp add: fetch_and_display_def fetch_html_def fetch_emails_from_ncut_def
      save_to_database_def display_contacts_def split: response.splits)

lemma run_empty_page:
  assumes "url \<noteq> []" and "net url (requests_sent st) = Page []"
  shows "fetch_and_display net url st = st\<lparr>requests_sent := Suc (requests_sent st)\<rparr>"
  using assms by (simp add: fetch_and_display_def fetch_html_def)


lemma run_empty_url:
  "fetch_and_display net [] st = st\<lparr>dialogs := dialogs st @ [Error_invalid_url]\<rparr>"
  by (simp add: fetch_and_display_def)

text \<open>The runs of the example servers.\<close>

lemma lit_u_nonempty: "lit ''u'' \<noteq> []"
  by (simp add: lit_def)

lemma titled_page_nonempty: "titled_page \<noteq> []"
  by (simp add: titled_page_def titled_block_def lit_def)


lemma contacts_titled_page:
  "extract_contacts titled_page [e] =
     [\<lparr>c_name = unknown, c_title = lit ''Professor'', c_email = e\<rparr>]"
  unfolding extract_contacts_def blocks_titled_page
  by (simp add: build_contacts_def name_titled_block title_titled_block)


lemma steady_run:
  "fetch_and_display steady_net (lit ''u'') start =
     start\<lparr>contacts_table :=
             [\<lparr>c_name = unknown, c_title = lit ''Professor'', c_email = lit ''a@ncut.edu.tw''\<rparr>],
           tree_rows := [(unknown, lit ''Professor'', lit ''a@ncut.edu.tw'')],
           requests_sent := 2\<rparr>"
proof -
  have p: "steady_net (lit ''u'') (requests_sent start) = Page titled_page"
    by (simp add: steady_net_def)
  show ?thesis
    unfolding run_page[where net=steady_net and st=start, OF lit_u_nonempty p titled_page_nonempty]
    by (simp add: steady_net_def emails_titled_page contacts_titled_page start_def
        insert_or_ignore_def)
qed

section \<open>C1: running the pipeline twice\<close>

text \<open>
  C1: when every request of two consecutive runs for the same address is answered with
  the same content, the second run leaves the table as the first run left it (the same
  rows, so the same number of rows), and the contacts it hands to the display are those
  of the first run.
\<close>

theorem pipeline_idempotent:
  assumes "\<forall>k<4. net url (requests_sent st + k) = Page content"
  shows "contacts_table (fetch_and_display net url (fetch_and_display net url st)) =
           contacts_table (fetch_and_display net url st) \<and>
         length (contacts_table (fetch_and_display net url (fetch_and_display net url st))) =
           length (contacts_table (fetch_and_display net url st)) \<and>
         tree_rows (fetch_and_display net url (fetch_and_display net url st)) =
           tree_rows (fetch_and_display net url st)"
proof -
  from assms[rule_format, of 0] assms[rule_format, of "Suc 0"]
    assms[rule_format, of "Suc (Suc 0)"] assms[rule_format, of "Suc (Suc (Suc 0))"]
  have n0: "net url (requests_sent st) = Page content"
    and n1: "net url (Suc (requests_sent st)) = Page content"
    and n2: "net url (Suc (Suc (requests_sent st))) = Page content"
    and n3: "net url (Suc (Suc (Suc (requests_sent st)))) = Page content"
    by simp_all
  show ?thesis
  proof (cases "url = []")
    case True
    then show ?thesis by (simp add: run_empty_url)
  next
    case url: False
    show ?thesis
    proof (cases "content = []")
      case True
      with n0 url have 1: "fetch_and_display net url st = st\<lparr>requests_sent := Suc (requests_sent st)\<rparr>"
        by (simp add: run_empty_page)
      from n1 True url show ?thesis unfolding 1 by (simp add: run_empty_page)
    next
      case False
      let ?cs = "extract_contacts content (extract_emails content)"
      let ?st1 = "st\<lparr>contacts_table := foldl insert_or_ignore (contacts_table st) ?cs,
           tree_rows := map (\<lambda>c. (c_name c, c_title c, c_email c)) ?cs,
           requests_sent := Suc (Suc (requests_sent st)),
           console := console st\<rparr>"
      from run_page[where net=net and st=st, OF url n0 False] n1
      have 1: "fetch_and_display net url st = ?st1"
        by simp
      have 2: "net url (requests_sent ?st1) = Page content" using n2 by simp
      have 3: "net url (Suc (requests_sent ?st1)) = Page content" using n3 by simp
      show ?thesis
        unfolding 1 run_page[where net=net and st="?st1", OF url 2 False] 3
        by (simp add: save_twice)
    qed
  qed
qed

text \<open>
  A server that always answers with \<open>titled_page\<close>: both runs leave the one row of the
  page in the table and show it.
\<close>

theorem pipeline_idempotent_witness:
  "contacts_table (fetch_and_display steady_net (lit ''u'') start) =
     [\<lparr>c_name = unknown, c_title = lit ''Professor'', c_email = lit ''a@ncut.edu.tw''\<rparr>] \<and>
   contacts_table
     (fetch_and_display steady_net (lit ''u'') (fetch_and_display steady_net (lit ''u'') start)) =
     [\<lparr>c_name = unknown, c_title = lit ''Professor'', c_email = lit ''a@ncut.edu.tw''\<rparr>] \<and>
   tree_rows
     (fetch_and_display steady_net (lit ''u'') (fetch_and_display steady_net (lit ''u'') start)) =
     [(unknown, lit ''Professor'', lit ''a@ncut.edu.tw'')]"
proof -
  have h: "\<forall>k<4. steady_net (lit ''u'') (requests_sent start + k) = Page titled_page"
    by (simp add: steady_net_def)
  from pipeline_idempotent[where net=steady_net and url="lit ''u''" and st=start, OF h]
  show ?thesis
    by (simp add: steady_run)
qed

section \<open>C6: a batch with one stored email\<close>




section \<open>C7: the content the emails come from\<close>




section \<open>C8: the page fetch fails\<close>



section \<open>C9: the empty address\<close>

text \<open>
  C9: a run with an empty address shows an error dialog and does nothing else: no
  request is sent, nothing is extracted, and the table and the displayed rows are as
  before.
\<close>

theorem empty_address_fails_fast:
  "fetch_and_display net [] st = st\<lparr>dialogs := dialogs st @ [Error_invalid_url]\<rparr> \<and>
   requests_sent (fetch_and_display net [] st) = requests_sent st \<and>
   contacts_table (fetch_and_display net [] st) = contacts_table st \<and>
   tree_rows (fetch_and_display net [] st) = tree_rows st \<and>
   console (fetch_and_display net [] st) = console st"
  by (simp add: run_empty_url)

section \<open>C10: the email fetch fails\<close>




end
